theory Spec2Isabelle
  imports Main "HOL-Library.Word"
begin

section \<open>The article endpoint (src/plugins/api-plugin.ts)\<close>

subsection \<open>JavaScript values and truthiness\<close>

text \<open>
  The values that the front-matter parser can put into \<open>parsed.data\<close>. The handler
  asks only one thing of such a value: whether it is truthy (the left operand of \<open>||\<close>).
  Numbers are kept as integers plus \<open>NaN\<close>; dates, arrays and objects are objects and so
  always truthy.
\<close>

datatype jsval =
    JUndefined
  | JNull
  | JBool bool
  | JNum int
  | JNaN
  | JStr string
  | JDate string
  | JArr "jsval list"
  | JObj "(string \<times> jsval) list"

fun truthy :: "jsval \<Rightarrow> bool" where
  "truthy JUndefined = False"
| "truthy JNull = False"
| "truthy (JBool b) = b"
| "truthy (JNum n) = (n \<noteq> 0)"
| "truthy JNaN = False"
| "truthy (JStr s) = (s \<noteq> [])"
| "truthy (JDate d) = True"
| "truthy (JArr xs) = True"
| "truthy (JObj kvs) = True"

text \<open>\<open>a || b\<close>\<close>

definition js_or :: "jsval \<Rightarrow> jsval \<Rightarrow> jsval" where
  "js_or a b = (if truthy a then a else b)"

text \<open>Property access \<open>obj.key\<close> on a plain object: a missing key reads as \<open>undefined\<close>.\<close>

definition get_prop :: "(string \<rightharpoonup> jsval) \<Rightarrow> string \<Rightarrow> jsval" where
  "get_prop obj k = (case obj k of None \<Rightarrow> JUndefined | Some v \<Rightarrow> v)"

subsection \<open>The environment of the handler\<close>

datatype error = InvalidURL | ENOENT | EISDIR | MatterError

datatype fsentry = File string | Directory

text \<open>What \<open>matter(content)\<close> returns: the body after the front-matter block and the
  parsed key-value pairs.\<close>

record grayfile =
  parsed_content :: string
  parsed_data :: "string \<rightharpoonup> jsval"

text \<open>
  Everything the handler reads from outside the repository is a field of the environment:
  the constant \<open>ARTICLE_PATH\<close>, the platform's URL parser (\<open>new URL(u, 'http://localhost').pathname\<close>,
  \<open>None\<close> when the constructor throws), the file system, the \<open>gray-matter\<close> parser and
  the clock (\<open>new Date().toISOString()\<close>).
\<close>

record env =
  ARTICLE_PATH :: string
  URL_pathname :: "string \<Rightarrow> string option"
  fs :: "string \<Rightarrow> fsentry option"
  matter :: "string \<Rightarrow> error + grayfile"
  now_iso :: string

definition existsSync :: "env \<Rightarrow> string \<Rightarrow> bool" where
  "existsSync e p = (fs e p \<noteq> None)"

definition readFileSync :: "env \<Rightarrow> string \<Rightarrow> error + string" where
  "readFileSync e p =
     (case fs e p of
        None \<Rightarrow> Inl ENOENT
      | Some Directory \<Rightarrow> Inl EISDIR
      | Some (File c) \<Rightarrow> Inr c)"

subsection \<open>Request and response\<close>

record request =
  url :: "string option"

record article_data =
  title :: jsval
  date :: jsval
  slug :: string

record envelope =
  content :: string
  data :: article_data

text \<open>The argument of \<open>res.end\<close>: either \<open>JSON.stringify\<close> of the envelope object or a
  plain string.\<close>

datatype body = Json envelope | Plain string

record response =
  statusCode :: nat
  headers :: "(string \<times> string) list"
  ended :: "body option"

text \<open>A fresh server response: status 200, no headers, nothing written.\<close>

definition new_response :: response where
  "new_response = \<lparr>statusCode = 200, headers = [], ended = None\<rparr>"

definition setHeader :: "string \<Rightarrow> string \<Rightarrow> response \<Rightarrow> response" where
  "setHeader k v res = res\<lparr>headers := (k, v) # filter (\<lambda>h. fst h \<noteq> k) (headers res)\<rparr>"

definition end_with :: "body \<Rightarrow> response \<Rightarrow> response" where
  "end_with b res = res\<lparr>ended := Some b\<rparr>"

subsection \<open>The handler\<close>

text \<open>\<open>pathname.replace(re, '')\<close> where \<open>re\<close> matches one slash and has no \<open>g\<close> flag:
  only the first slash is removed.\<close>

fun remove_first_slash :: "string \<Rightarrow> string" where
  "remove_first_slash [] = []"
| "remove_first_slash (c # cs) = (if c = CHR ''/'' then cs else c # remove_first_slash cs)"

text \<open>\<open>req.url || ''\<close>\<close>

definition url_or_empty :: "request \<Rightarrow> string" where
  "url_or_empty req = (case url req of None \<Rightarrow> [] | Some u \<Rightarrow> u)"

text \<open>The template literal \<open>`${ARTICLE_PATH}/${slug}/article.md`\<close>.\<close>

definition filePath :: "env \<Rightarrow> string \<Rightarrow> string" where
  "filePath e s = ARTICLE_PATH e @ ''/'' @ s @ ''/article.md''"

definition apiPlugin :: "env \<Rightarrow> request \<Rightarrow> response \<Rightarrow> error + response" where
  "apiPlugin e req res =
     (case URL_pathname e (url_or_empty req) of
        None \<Rightarrow> Inl InvalidURL
      | Some pathname \<Rightarrow>
          (let s = remove_first_slash pathname;
               p = filePath e s
           in if existsSync e p then
                (let res1 = setHeader ''Content-Type'' ''application/json'' res in
                 case readFileSync e p of
                   Inl err \<Rightarrow> Inl err
                 | Inr text \<Rightarrow>
                     (case matter e text of
                        Inl err \<Rightarrow> Inl err
                      | Inr parsed \<Rightarrow>
                          Inr (end_with
                                 (Json \<lparr>content = parsed_content parsed,
                                        data = \<lparr>title = js_or (get_prop (parsed_data parsed) ''title'')
                                                              (JStr ''Untitled''),
                                                date = js_or (get_prop (parsed_data parsed) ''date'')
                                                             (JStr (now_iso e)),
                                                slug = s\<rparr>\<rparr>)
                                 res1)))
              else Inr (end_with (Plain ''Article not found'') (res\<lparr>statusCode := 404\<rparr>))))"

text \<open>The object whose serialisation was written, when the handler answered with one.\<close>

definition sent_json :: "error + response \<Rightarrow> envelope option" where
  "sent_json r =
     (case r of
        Inl err \<Rightarrow> None
      | Inr res \<Rightarrow> (case ended res of Some (Json j) \<Rightarrow> Some j | Some (Plain t) \<Rightarrow> None | None \<Rightarrow> None))"

subsection \<open>Path resolution\<close>





subsection \<open>The URL parser's path state\<close>
















subsection \<open>A sample installation\<close>

text \<open>
  The article shipped with the repository, \<open>src/articles/2025/react/mutation-observer/article.md\<close>,
  and two variations of it: one with an empty title, one without front-matter.
\<close>

definition unlines :: "string list \<Rightarrow> string" where
  "unlines ls = concat (map (\<lambda>l. l @ [CHR 0x0A]) ls)"

definition quoted :: "string \<Rightarrow> string" where
  "quoted s = CHR 0x27 # s @ [CHR 0x27]"

definition article_text :: string where
  "article_text =
     unlines [''---'',
              ''title: '' @ quoted ''Inject Copy Button into Code Block'',
              ''date: '' @ quoted ''2025-06-26'',
              ''topic: '' @ quoted ''React'',
              ''---'', [], ''# Body'']"

definition article_parsed :: grayfile where
  "article_parsed =
     \<lparr>parsed_content = unlines [[], ''# Body''],
      parsed_data = [''title'' \<mapsto> JStr ''Inject Copy Button into Code Block'',
                     ''date'' \<mapsto> JStr ''2025-06-26'',
                     ''topic'' \<mapsto> JStr ''React'']\<rparr>"

definition empty_title_text :: string where
  "empty_title_text =
     unlines [''---'', ''title: '' @ quoted [], ''date: '' @ quoted ''2025-06-26'', ''---'', [], ''# Body'']"

definition empty_title_parsed :: grayfile where
  "empty_title_parsed =
     \<lparr>parsed_content = unlines [[], ''# Body''],
      parsed_data = [''title'' \<mapsto> JStr [], ''date'' \<mapsto> JStr ''2025-06-26'']\<rparr>"

definition bare_text :: string where
  "bare_text = unlines [''# Body'']"

definition bare_parsed :: grayfile where
  "bare_parsed = \<lparr>parsed_content = unlines [''# Body''], parsed_data = Map.empty\<rparr>"

definition demo_env :: env where
  "demo_env =
     \<lparr>ARTICLE_PATH = ''src/articles/2025'',
      URL_pathname = (\<lambda>u. Some u),
      fs = [''src/articles/2025/react/mutation-observer/article.md'' \<mapsto> File article_text,
            ''src/articles/2025/empty-title/article.md'' \<mapsto> File empty_title_text,
            ''src/articles/2025/bare/article.md'' \<mapsto> File bare_text],
      matter = (\<lambda>t. if t = article_text then Inr article_parsed
                      else if t = empty_title_text then Inr empty_title_parsed
                      else if t = bare_text then Inr bare_parsed
                      else Inl MatterError),
      now_iso = ''2026-01-01T00:00:00.000Z''\<rparr>"






definition get :: "string \<Rightarrow> request" where
  "get u = \<lparr>url = Some u\<rparr>"

section \<open>The copy-button enhancer (src/components/CopyButton.tsx)\<close>

subsection \<open>The document\<close>

text \<open>
  Text is kept as UTF-16 code units, the unit in which \<open>trim\<close> classifies characters.
  An element has a tag, attributes, inline style declarations and children. A node is
  referred to by its path from the root: the list of child indices that leads to it.
\<close>

type_synonym jstext = "16 word list"

datatype node =
    Text jstext
  | Element string "(string \<times> string) list" "(string \<times> string) list" "node list"

type_synonym path = "nat list"

fun children :: "node \<Rightarrow> node list" where
  "children (Text s) = []"
| "children (Element t a st cs) = cs"

fun node_at :: "node \<Rightarrow> path \<Rightarrow> node option" where
  "node_at n [] = Some n"
| "node_at (Text s) (i # p) = None"
| "node_at (Element t a st cs) (i # p) = (if i < length cs then node_at (cs ! i) p else None)"

text \<open>Replacing the node at a path; a path that leads nowhere changes nothing.\<close>

fun update_at :: "path \<Rightarrow> (node \<Rightarrow> node) \<Rightarrow> node \<Rightarrow> node" where
  "update_at [] f n = f n"
| "update_at (i # p) f (Text s) = Text s"
| "update_at (i # p) f (Element t a st cs) =
     (if i < length cs then Element t a st (cs[i := update_at p f (cs ! i)])
      else Element t a st cs)"

text \<open>\<open>node.textContent\<close>: the text of all descendants, in document order.\<close>

fun textContent :: "node \<Rightarrow> jstext" where
  "textContent (Text s) = s"
| "textContent (Element t a st cs) = concat (map textContent cs)"

text \<open>The code units that \<open>String.prototype.trim\<close> strips: ECMAScript's white space
  and line terminators.\<close>

definition is_whitespace :: "16 word \<Rightarrow> bool" where
  "is_whitespace c =
     (c \<in> {0x09, 0x0A, 0x0B, 0x0C, 0x0D, 0x20, 0xA0, 0x1680, 0x2028, 0x2029, 0x202F, 0x205F,
            0x3000, 0xFEFF}
      \<or> (0x2000 \<le> c \<and> c \<le> 0x200A))"

definition trim :: "jstext \<Rightarrow> jstext" where
  "trim s = rev (dropWhile is_whitespace (rev (dropWhile is_whitespace s)))"

text \<open>The selector \<open>[k]\<close>: the node is an element that has the attribute \<open>k\<close>.\<close>

fun has_attribute :: "string \<Rightarrow> node \<Rightarrow> bool" where
  "has_attribute k (Text s) = False"
| "has_attribute k (Element t a st cs) = (k \<in> set (map fst a))"

fun matches_within :: "string \<Rightarrow> node \<Rightarrow> bool" where
  "matches_within k (Text s) = False"
| "matches_within k (Element t a st cs) =
     (k \<in> set (map fst a) \<or> list_ex (matches_within k) cs)"

text \<open>\<open>n.querySelector('[k]')\<close> finds something: some descendant of \<open>n\<close>, not \<open>n\<close>
  itself, has the attribute.\<close>

definition querySelector_attr :: "string \<Rightarrow> node \<Rightarrow> bool" where
  "querySelector_attr k n = list_ex (matches_within k) (children n)"

text \<open>\<open>querySelectorAll(tag)\<close>: the paths of all elements with that tag, in document
  order. The list is static: it is not updated when the document changes.\<close>

fun querySelectorAll :: "string \<Rightarrow> node \<Rightarrow> path list"
  and querySelectorAll_children :: "string \<Rightarrow> nat \<Rightarrow> node list \<Rightarrow> path list" where
  "querySelectorAll tg (Text s) = []"
| "querySelectorAll tg (Element t a st cs) =
     (if t = tg then [[]] else []) @ querySelectorAll_children tg 0 cs"
| "querySelectorAll_children tg i [] = []"
| "querySelectorAll_children tg i (c # cs) =
     map ((#) i) (querySelectorAll tg c) @ querySelectorAll_children tg (Suc i) cs"

text \<open>\<open>getElementById\<close>: the first element in document order whose \<open>id\<close> attribute
  is the given one.\<close>

fun getElementById :: "string \<Rightarrow> node \<Rightarrow> path option"
  and getElementById_children :: "string \<Rightarrow> nat \<Rightarrow> node list \<Rightarrow> path option" where
  "getElementById i (Text s) = None"
| "getElementById i (Element t a st cs) =
     (if map_of a ''id'' = Some i then Some [] else getElementById_children i 0 cs)"
| "getElementById_children i k [] = None"
| "getElementById_children i k (c # cs) =
     (case getElementById i c of
        Some p \<Rightarrow> Some (k # p)
      | None \<Rightarrow> getElementById_children i (Suc k) cs)"

text \<open>\<open>el.style.k = v\<close>\<close>

fun set_property :: "string \<Rightarrow> string \<Rightarrow> (string \<times> string) list \<Rightarrow> (string \<times> string) list" where
  "set_property k v [] = [(k, v)]"
| "set_property k v (kv # kvs) =
     (if fst kv = k then (k, v) # kvs else kv # set_property k v kvs)"

fun set_style :: "string \<Rightarrow> string \<Rightarrow> node \<Rightarrow> node" where
  "set_style k v (Text s) = Text s"
| "set_style k v (Element t a st cs) = Element t a (set_property k v st) cs"

text \<open>\<open>parent.appendChild(child)\<close> for a child that is not yet in the document.\<close>

fun appendChild :: "node \<Rightarrow> node \<Rightarrow> node" where
  "appendChild (Text s) child = Text s"
| "appendChild (Element t a st cs) child = Element t a st (cs @ [child])"

subsection \<open>The scan\<close>

text \<open>
  The state: the document, the React roots created so far (each with the path of its
  container and the \<open>value\<close> prop of the button rendered into it), and the target of
  the mutation observer while it is connected.
\<close>

record react_root =
  container :: path
  button_value :: jstext

record world =
  document :: node
  roots :: "react_root list"
  observing :: "path option"

text \<open>The wrapper \<open>div\<close> as it is when it is appended: marked with \<open>data-copy-btn\<close>,
  styled, and empty.\<close>

definition wrapper :: node where
  "wrapper =
     Element ''div'' [(''data-copy-btn'', ''true'')]
       [(''position'', ''absolute''), (''top'', ''10px''), (''right'', ''0.5rem''), (''z-index'', ''10'')]
       []"

text \<open>The body of the \<open>forEach\<close> callback, for the \<open>pre\<close> element at path \<open>p\<close>.\<close>

definition inject_into :: "path \<Rightarrow> world \<Rightarrow> world" where
  "inject_into p w =
     (case node_at (document w) p of
        None \<Rightarrow> w
      | Some pre \<Rightarrow>
          if querySelector_attr ''data-copy-btn'' pre then w
          else if trim (textContent pre) = [] then w
          else
            (let pre' = appendChild (set_style ''position'' ''relative'' pre) wrapper
             in w\<lparr>document := update_at p (\<lambda>n. pre') (document w),
                  roots := roots w @ [\<lparr>container = p @ [length (children pre)],
                                        button_value = textContent pre'\<rparr>]\<rparr>))"

definition injectCopyButtonsIntoCodeBlocks :: "world \<Rightarrow> world" where
  "injectCopyButtonsIntoCodeBlocks w = fold inject_into (querySelectorAll ''pre'' (document w)) w"

subsection \<open>The component's effect\<close>

text \<open>The function the effect returns, if it returns one: \<open>() => observer.disconnect()\<close>.\<close>

datatype cleanup = Disconnect

definition CopyButtonsInjector :: "world \<Rightarrow> world \<times> cleanup option" where
  "CopyButtonsInjector w =
     (case getElementById ''post-content'' (document w) of
        None \<Rightarrow> (w, None)
      | Some targetNode \<Rightarrow>
          (let w1 = injectCopyButtonsIntoCodeBlocks w;
               w2 = w1\<lparr>observing := Some targetNode\<rparr>
           in (w2, Some Disconnect)))"

text \<open>What React does when the component is unmounted: it calls the cleanup function,
  if the effect returned one.\<close>

fun run_cleanup :: "cleanup option \<Rightarrow> world \<Rightarrow> world" where
  "run_cleanup None w = w"
| "run_cleanup (Some Disconnect) w = w\<lparr>observing := None\<rparr>"

text \<open>
  What can happen around the component: anyone may change the document, and the mutation
  observer may call its callback, but only while it is connected.
\<close>

inductive step :: "world \<Rightarrow> world \<Rightarrow> bool" where
  mutation: "roots w' = roots w \<Longrightarrow> observing w' = observing w \<Longrightarrow> step w w'"
| notification: "observing w \<noteq> None \<Longrightarrow> w' = injectCopyButtonsIntoCodeBlocks w \<Longrightarrow> step w w'"

code_pred step .

subsection \<open>The scan as a recursion over the tree\<close>

text \<open>The element would get a button: it has no marked descendant and its text is not
  blank.\<close>

definition wants_button :: "node \<Rightarrow> bool" where
  "wants_button n = (\<not> querySelector_attr ''data-copy-btn'' n \<and> trim (textContent n) \<noteq> [])"

fun scan_node :: "node \<Rightarrow> node" where
  "scan_node (Text s) = Text s"
| "scan_node (Element t a st cs) =
     (if t = ''pre'' \<and> wants_button (Element t a st cs)
      then Element t a (set_property ''position'' ''relative'' st) (map scan_node cs @ [wrapper])
      else Element t a st (map scan_node cs))"

definition below :: "path \<Rightarrow> react_root \<Rightarrow> react_root" where
  "below p r = r\<lparr>container := p @ container r\<rparr>"

fun mounts_node :: "node \<Rightarrow> react_root list"
  and mounts_children :: "nat \<Rightarrow> node list \<Rightarrow> react_root list" where
  "mounts_node (Text s) = []"
| "mounts_node (Element t a st cs) =
     (if t = ''pre'' \<and> wants_button (Element t a st cs)
      then [\<lparr>container = [length cs], button_value = textContent (Element t a st cs)\<rparr>]
      else [])
     @ mounts_children 0 cs"
| "mounts_children i [] = []"
| "mounts_children i (c # cs) = map (below [i]) (mounts_node c) @ mounts_children (Suc i) cs"

subsection \<open>Counting\<close>

fun is_tag :: "string \<Rightarrow> node \<Rightarrow> bool" where
  "is_tag tg (Text s) = False"
| "is_tag tg (Element t a st cs) = (t = tg)"

text \<open>The roots whose container is a child of the node at path \<open>p\<close>: the controls
  mounted into that node.\<close>

definition mounted_into :: "path \<Rightarrow> react_root list \<Rightarrow> react_root list" where
  "mounted_into p rs = filter (\<lambda>r. container r \<noteq> [] \<and> butlast (container r) = p) rs"

text \<open>The children of a node that carry the marker.\<close>

definition wrappers_in :: "node \<Rightarrow> node list" where
  "wrappers_in n = filter (has_attribute ''data-copy-btn'') (children n)"

definition wrapper_count :: "node \<Rightarrow> path \<Rightarrow> nat" where
  "wrapper_count d p = (case node_at d p of None \<Rightarrow> 0 | Some n \<Rightarrow> length (wrappers_in n))"

text \<open>An enhanced document: every \<open>pre\<close> element has a marked descendant or a blank
  text, so the scan finds nothing to do.\<close>

definition settled :: "node \<Rightarrow> bool" where
  "settled d =
     list_all (\<lambda>p. case node_at d p of None \<Rightarrow> True | Some n \<Rightarrow> \<not> wants_button n)
       (querySelectorAll ''pre'' d)"

subsection \<open>A sample page\<close>

definition utf16 :: "string \<Rightarrow> jstext" where
  "utf16 s = map (\<lambda>c. of_nat (of_char c)) s"

definition sample_block :: node where
  "sample_block =
     Element ''pre'' [(''class'', ''language-js'')] []
       [Element ''code'' [(''class'', ''language-js'')] [] [Text (utf16 ''npm i'')]]"

definition blank_block :: node where
  "blank_block = Element ''pre'' [] [] [Text (utf16 ''  '')]"

definition sample_page :: node where
  "sample_page =
     Element ''html'' [] []
       [Element ''div'' [(''id'', ''post-content'')] []
          [Element ''p'' [] [] [Text (utf16 ''hello'')], sample_block, blank_block]]"

definition sample_world :: world where
  "sample_world = \<lparr>document = sample_page, roots = [], observing = None\<rparr>"

text \<open>The sample page once the component is mounted, and once it is unmounted again.\<close>

definition mounted_world :: world where
  "mounted_world = fst (CopyButtonsInjector sample_world)"

definition unmounted_world :: world where
  "unmounted_world = run_cleanup (snd (CopyButtonsInjector sample_world)) mounted_world"

text \<open>The mounted page after React has rendered the button into the wrapper.\<close>

definition rendered_world :: world where
  "rendered_world =
     mounted_world
       \<lparr>document :=
          update_at [0, 1, 1]
            (\<lambda>n. appendChild n (Element ''button'' [(''type'', ''button'')] [] [Text (utf16 ''Copy'')]))
            (document mounted_world)\<rparr>"

text \<open>The same page after someone has added a second, non-empty code block to the
  container.\<close>

definition grown_page :: node where
  "grown_page =
     update_at [0]
       (\<lambda>n. appendChild n (Element ''pre'' [] [] [Text (utf16 ''npm run dev'')]))
       (document mounted_world)"

text \<open>A page without the container.\<close>

definition plain_page :: node where
  "plain_page =
     Element ''html'' [] []
       [Element ''div'' [(''id'', ''root'')] []
          [Element ''pre'' [] [] [Text (utf16 ''npm i'')]]]"

definition plain_world :: world where
  "plain_world = \<lparr>document = plain_page, roots = [], observing = None\<rparr>"

section \<open>Properties of the article endpoint\<close>

text \<open>What the handler answers once the path exists, the file can be read and the
  front-matter parser returns.\<close>

lemma apiPlugin_found:
  assumes "URL_pathname e (url_or_empty req) = Some pn"
      and "fs e (filePath e (remove_first_slash pn)) = Some (File text)"
      and "matter e text = Inr parsed"
  shows "apiPlugin e req res =
           Inr (end_with
                  (Json \<lparr>content = parsed_content parsed,
                         data = \<lparr>title = js_or (get_prop (parsed_data parsed) ''title'') (JStr ''Untitled''),
                                 date = js_or (get_prop (parsed_data parsed) ''date'') (JStr (now_iso e)),
                                 slug = remove_first_slash pn\<rparr>\<rparr>)
                  (setHeader ''Content-Type'' ''application/json'' res))"
  using assms by (simp add: apiPlugin_def existsSync_def readFileSync_def Let_def)

text \<open>
  C1 (amended). For every slug whose article file exists and whose front-matter holds a
  non-empty string \<open>T\<close> as title and a non-empty string \<open>D\<close> as date, the handler leaves
  the status code alone (200 on a fresh response), sets the JSON content type and writes
  the serialisation of \<open>{content: body, data: {title: T, date: D, slug: slug}}\<close>, where
  \<open>body\<close> is the text after the front-matter block and \<open>slug\<close> is the pathname without
  its first slash.
\<close>

theorem found_envelope:
  assumes "URL_pathname e (url_or_empty req) = Some pn"
      and "fs e (filePath e (remove_first_slash pn)) = Some (File text)"
      and "matter e text = Inr parsed"
      and "parsed_data parsed ''title'' = Some (JStr T)" and "T \<noteq> []"
      and "parsed_data parsed ''date'' = Some (JStr D)" and "D \<noteq> []"
  shows "apiPlugin e req res =
           Inr (res\<lparr>headers := (''Content-Type'', ''application/json'')
                                # filter (\<lambda>h. fst h \<noteq> ''Content-Type'') (headers res),
                    ended := Some (Json \<lparr>content = parsed_content parsed,
                                        data = \<lparr>title = JStr T, date = JStr D,
                                                slug = remove_first_slash pn\<rparr>\<rparr>)\<rparr>)"
  using assms(4-7) unfolding apiPlugin_found [OF assms(1-3)]
  by (simp add: get_prop_def js_or_def setHeader_def end_with_def)

text \<open>The article of the repository, requested as \<open>/react/mutation-observer\<close>.\<close>

theorem found_envelope_witness:
  "apiPlugin demo_env (get ''/react/mutation-observer'') new_response =
     Inr \<lparr>statusCode = 200,
          headers = [(''Content-Type'', ''application/json'')],
          ended = Some (Json \<lparr>content = parsed_content article_parsed,
                              data = \<lparr>title = JStr ''Inject Copy Button into Code Block'',
                                      date = JStr ''2025-06-26'',
                                      slug = ''react/mutation-observer''\<rparr>\<rparr>)\<rparr>"
proof -
  have h1: "URL_pathname demo_env (url_or_empty (get ''/react/mutation-observer''))
              = Some ''/react/mutation-observer''"
    by (simp add: demo_env_def get_def url_or_empty_def)
  have h2: "fs demo_env (filePath demo_env (remove_first_slash ''/react/mutation-observer''))
              = Some (File article_text)"
    by (simp add: demo_env_def filePath_def)
  have h3: "matter demo_env article_text = Inr article_parsed"
    by (simp add: demo_env_def)
  have h4: "parsed_data article_parsed ''title'' = Some (JStr ''Inject Copy Button into Code Block'')"
    by (simp add: article_parsed_def)
  have h5: "parsed_data article_parsed ''date'' = Some (JStr ''2025-06-26'')"
    by (simp add: article_parsed_def)
  show ?thesis
    using found_envelope [OF h1 h2 h3 h4 _ h5, of new_response]
    by (simp add: new_response_def)
qed

text \<open>
  C1 as stated fails for an empty title: the file exists, the front-matter holds the
  title \<open>''\<close> and the date \<open>'2025-06-26'\<close>, and the answer carries the title
  \<open>Untitled\<close>, not the empty string.
\<close>

theorem empty_title_counterexample:
  "fs demo_env (filePath demo_env ''empty-title'') = Some (File empty_title_text)
   \<and> matter demo_env empty_title_text = Inr empty_title_parsed
   \<and> parsed_data empty_title_parsed ''title'' = Some (JStr [])
   \<and> parsed_data empty_title_parsed ''date'' = Some (JStr ''2025-06-26'')
   \<and> sent_json (apiPlugin demo_env (get ''/empty-title'') new_response)
       = Some \<lparr>content = parsed_content empty_title_parsed,
                data = \<lparr>title = JStr ''Untitled'', date = JStr ''2025-06-26'', slug = ''empty-title''\<rparr>\<rparr>
   \<and> sent_json (apiPlugin demo_env (get ''/empty-title'') new_response)
       \<noteq> Some \<lparr>content = parsed_content empty_title_parsed,
                data = \<lparr>title = JStr [], date = JStr ''2025-06-26'', slug = ''empty-title''\<rparr>\<rparr>"
proof -
  have text_ne: "empty_title_text \<noteq> article_text"
    by (simp add: empty_title_text_def article_text_def unlines_def quoted_def)
  have run: "apiPlugin demo_env (get ''/empty-title'') new_response =
     Inr (end_with
            (Json \<lparr>content = parsed_content empty_title_parsed,
                   data = \<lparr>title = JStr ''Untitled'', date = JStr ''2025-06-26'', slug = ''empty-title''\<rparr>\<rparr>)
            (setHeader ''Content-Type'' ''application/json'' new_response))"
    using text_ne
    by (simp add: apiPlugin_def demo_env_def get_def url_or_empty_def filePath_def existsSync_def
        readFileSync_def js_or_def get_prop_def empty_title_parsed_def)
  show ?thesis
    using text_ne unfolding run
    by (simp add: sent_json_def end_with_def demo_env_def filePath_def empty_title_parsed_def)
qed

text \<open>
  C2. For every slug at whose path nothing exists, the handler sets the status code 404,
  writes the plain text \<open>Article not found\<close>, leaves the headers alone and writes no
  JSON envelope.
\<close>

theorem missing_article_404:
  assumes "URL_pathname e (url_or_empty req) = Some pn"
      and "fs e (filePath e (remove_first_slash pn)) = None"
  shows "apiPlugin e req res =
           Inr (res\<lparr>statusCode := 404, ended := Some (Plain ''Article not found'')\<rparr>)
         \<and> sent_json (apiPlugin e req res) = None"
  using assms by (simp add: apiPlugin_def existsSync_def end_with_def sent_json_def Let_def)

theorem missing_article_404_witness:
  "apiPlugin demo_env (get ''/no/such/article'') new_response =
     Inr \<lparr>statusCode = 404, headers = [], ended = Some (Plain ''Article not found'')\<rparr>
   \<and> sent_json (apiPlugin demo_env (get ''/no/such/article'') new_response) = None"
proof -
  have h1: "URL_pathname demo_env (url_or_empty (get ''/no/such/article'')) = Some ''/no/such/article''"
    by (simp add: demo_env_def get_def url_or_empty_def)
  have h2: "fs demo_env (filePath demo_env (remove_first_slash ''/no/such/article'')) = None"
    by (simp add: demo_env_def filePath_def)
  show ?thesis
    using missing_article_404 [OF h1 h2, of new_response]
    by (simp add: new_response_def sent_json_def)
qed

text \<open>
  C3. When the article file exists and the front-matter has no \<open>title\<close> key, the title
  sent is \<open>Untitled\<close>; when it has no \<open>date\<close> key, the date sent is the ISO string
  of the clock at the time the request is handled.
\<close>

theorem absent_fields_defaulted:
  assumes "URL_pathname e (url_or_empty req) = Some pn"
      and "fs e (filePath e (remove_first_slash pn)) = Some (File text)"
      and "matter e text = Inr parsed"
  shows "(parsed_data parsed ''title'' = None \<longrightarrow>
            map_option (\<lambda>j. title (data j)) (sent_json (apiPlugin e req res)) = Some (JStr ''Untitled''))
       \<and> (parsed_data parsed ''date'' = None \<longrightarrow>
            map_option (\<lambda>j. date (data j)) (sent_json (apiPlugin e req res)) = Some (JStr (now_iso e)))"
  unfolding apiPlugin_found [OF assms]
  by (simp add: sent_json_def end_with_def setHeader_def get_prop_def js_or_def)

theorem absent_fields_defaulted_witness:
  "parsed_data bare_parsed ''title'' = None \<and> parsed_data bare_parsed ''date'' = None
   \<and> map_option (\<lambda>j. title (data j)) (sent_json (apiPlugin demo_env (get ''/bare'') new_response))
       = Some (JStr ''Untitled'')
   \<and> map_option (\<lambda>j. date (data j)) (sent_json (apiPlugin demo_env (get ''/bare'') new_response))
       = Some (JStr ''2026-01-01T00:00:00.000Z'')"
proof -
  have h1: "URL_pathname demo_env (url_or_empty (get ''/bare'')) = Some ''/bare''"
    by (simp add: demo_env_def get_def url_or_empty_def)
  have h2: "fs demo_env (filePath demo_env (remove_first_slash ''/bare'')) = Some (File bare_text)"
    by (simp add: demo_env_def filePath_def)
  have h3: "matter demo_env bare_text = Inr bare_parsed"
    by (simp add: demo_env_def bare_text_def article_text_def empty_title_text_def unlines_def)
  have h4: "parsed_data bare_parsed ''title'' = None" "parsed_data bare_parsed ''date'' = None"
    by (simp_all add: bare_parsed_def)
  have h5: "now_iso demo_env = ''2026-01-01T00:00:00.000Z''"
    by (simp add: demo_env_def)
  show ?thesis
    using absent_fields_defaulted [OF h1 h2 h3, of new_response] h4 h5
    by simp
qed

text \<open>
  C10. The defaults are chosen by the truthiness of the parsed value: the title sent is
  the parsed title when that is truthy and \<open>Untitled\<close> otherwise, the date sent is the
  parsed date when that is truthy and the clock's ISO string otherwise. A key that is
  present with a falsy value, such as the empty string, is treated as an absent key.
\<close>

theorem falsy_fields_defaulted:
  assumes "URL_pathname e (url_or_empty req) = Some pn"
      and "fs e (filePath e (remove_first_slash pn)) = Some (File text)"
      and "matter e text = Inr parsed"
  shows "map_option (\<lambda>j. title (data j)) (sent_json (apiPlugin e req res))
           = Some (if truthy (get_prop (parsed_data parsed) ''title'')
                   then get_prop (parsed_data parsed) ''title'' else JStr ''Untitled'')
       \<and> map_option (\<lambda>j. date (data j)) (sent_json (apiPlugin e req res))
           = Some (if truthy (get_prop (parsed_data parsed) ''date'')
                   then get_prop (parsed_data parsed) ''date'' else JStr (now_iso e))
       \<and> (\<forall>v. parsed_data parsed ''title'' = Some v \<and> \<not> truthy v \<longrightarrow>
            map_option (\<lambda>j. title (data j)) (sent_json (apiPlugin e req res)) = Some (JStr ''Untitled''))
       \<and> (\<forall>v. parsed_data parsed ''date'' = Some v \<and> \<not> truthy v \<longrightarrow>
            map_option (\<lambda>j. date (data j)) (sent_json (apiPlugin e req res)) = Some (JStr (now_iso e)))
       \<and> \<not> truthy (JStr [])"
  unfolding apiPlugin_found [OF assms]
  by (simp add: sent_json_def end_with_def setHeader_def get_prop_def js_or_def)

theorem falsy_fields_defaulted_witness:
  "parsed_data empty_title_parsed ''title'' = Some (JStr []) \<and> \<not> truthy (JStr [])
   \<and> map_option (\<lambda>j. title (data j)) (sent_json (apiPlugin demo_env (get ''/empty-title'') new_response))
       = Some (JStr ''Untitled'')
   \<and> map_option (\<lambda>j. date (data j)) (sent_json (apiPlugin demo_env (get ''/empty-title'') new_response))
       = Some (JStr ''2025-06-26'')"
proof -
  have h1: "URL_pathname demo_env (url_or_empty (get ''/empty-title'')) = Some ''/empty-title''"
    by (simp add: demo_env_def get_def url_or_empty_def)
  have h2: "fs demo_env (filePath demo_env (remove_first_slash ''/empty-title''))
              = Some (File empty_title_text)"
    by (simp add: demo_env_def filePath_def)
  have h3: "matter demo_env empty_title_text = Inr empty_title_parsed"
    by (simp add: demo_env_def article_text_def empty_title_text_def unlines_def quoted_def)
  have h4: "parsed_data empty_title_parsed ''title'' = Some (JStr [])"
           "get_prop (parsed_data empty_title_parsed) ''date'' = JStr ''2025-06-26''"
    by (simp_all add: empty_title_parsed_def get_prop_def)
  show ?thesis
    using falsy_fields_defaulted [OF h1 h2 h3, of new_response] h4
    by simp
qed

















section \<open>Properties of the enhancer\<close>

text \<open>Paths into the document.\<close>

lemma node_at_append:
  "node_at d (p @ q) = (case node_at d p of None \<Rightarrow> None | Some n \<Rightarrow> node_at n q)"
  by (induction d p rule: node_at.induct) auto

lemma update_at_append: "update_at (p @ q) f d = update_at p (update_at q f) d"
  by (induction p f d rule: update_at.induct) auto

lemma node_at_update_at:
  "node_at d p = Some n \<Longrightarrow> node_at (update_at p f d) p = Some (f n)"
  by (induction d p arbitrary: n rule: node_at.induct) (auto split: if_splits)

lemma update_at_twice: "update_at p f (update_at p g d) = update_at p (\<lambda>n. f (g n)) d"
  by (induction p g d rule: update_at.induct) auto

lemma update_at_same: "node_at d p = Some n \<Longrightarrow> update_at p (\<lambda>m. n) d = d"
  by (induction d p arbitrary: n rule: node_at.induct) (auto split: if_splits)

lemma textContent_wrapper [simp]: "textContent wrapper = []"
  by (simp add: wrapper_def)

lemma below_below: "below p (below q r) = below (p @ q) r"
  by (simp add: below_def)

lemma map_below_below: "map (below p) (map (below q) rs) = map (below (p @ q)) rs"
  by (simp add: below_below)

lemma below_Nil: "below [] = (\<lambda>r. r)"
  by (rule ext) (simp add: below_def)

lemma append_Nil_fun: "(@) ([]::path) = (\<lambda>q. q)"
  by (rule ext) simp

lemma inject_into_element:
  assumes "node_at (document w) p = Some (Element t a st cs)"
  shows "inject_into p w =
           (if wants_button (Element t a st cs)
            then w\<lparr>document := update_at p
                      (\<lambda>n. Element t a (set_property ''position'' ''relative'' st) (cs @ [wrapper]))
                      (document w),
                    roots := roots w @ [\<lparr>container = p @ [length cs],
                                          button_value = textContent (Element t a st cs)\<rparr>]\<rparr>
            else w)"
  using assms by (auto simp: inject_into_def wants_button_def Let_def)


text \<open>The callbacks for the elements below one child after the other.\<close>

lemma fold_children:
  assumes sub: "\<And>c p v. c \<in> set cs2 \<Longrightarrow> node_at (document v) p = Some c \<Longrightarrow>
                  fold inject_into (map ((@) p) (querySelectorAll ''pre'' c)) v =
                    v\<lparr>document := update_at p (\<lambda>n. scan_node c) (document v),
                      roots := roots v @ map (below p) (mounts_node c)\<rparr>"
      and at: "node_at (document w) p = Some (Element t a st (cs1 @ cs2 @ cs3))"
  shows "fold inject_into (map ((@) p) (querySelectorAll_children ''pre'' (length cs1) cs2)) w =
           w\<lparr>document := update_at p (\<lambda>n. Element t a st (cs1 @ map scan_node cs2 @ cs3)) (document w),
             roots := roots w @ map (below p) (mounts_children (length cs1) cs2)\<rparr>"
  using assms
proof (induction cs2 arbitrary: cs1 w)
  case Nil
  then show ?case by (simp add: update_at_same)
next
  case (Cons c cs2)
  let ?k = "length cs1"
  let ?w' = "w\<lparr>document := update_at (p @ [?k]) (\<lambda>n. scan_node c) (document w),
                roots := roots w @ map (below (p @ [?k])) (mounts_node c)\<rparr>"
  have at_c: "node_at (document w) (p @ [?k]) = Some c"
    using Cons.prems(2) by (simp add: node_at_append)
  have first: "fold inject_into (map ((@) (p @ [?k])) (querySelectorAll ''pre'' c)) w = ?w'"
    by (rule Cons.prems(1) [OF _ at_c]) simp
  have at': "node_at (document ?w') p = Some (Element t a st ((cs1 @ [scan_node c]) @ cs2 @ cs3))"
    using Cons.prems(2) by (simp add: update_at_append node_at_update_at)
  have rest: "fold inject_into
                (map ((@) p) (querySelectorAll_children ''pre'' (length (cs1 @ [scan_node c])) cs2)) ?w' =
              ?w'\<lparr>document := update_at p
                       (\<lambda>n. Element t a st ((cs1 @ [scan_node c]) @ map scan_node cs2 @ cs3)) (document ?w'),
                   roots := roots ?w' @ map (below p) (mounts_children (length (cs1 @ [scan_node c])) cs2)\<rparr>"
    by (rule Cons.IH [OF _ at']) (simp add: Cons.prems(1))
  have paths: "map ((@) p) (map ((#) ?k) (querySelectorAll ''pre'' c))
                 = map ((@) (p @ [?k])) (querySelectorAll ''pre'' c)"
    by simp
  show ?case
    using rest
    by (simp add: paths first update_at_append update_at_twice map_below_below del: map_map)
qed

lemma fold_inject_into:
  "node_at (document w) p = Some n \<Longrightarrow>
     fold inject_into (map ((@) p) (querySelectorAll ''pre'' n)) w =
       w\<lparr>document := update_at p (\<lambda>m. scan_node n) (document w),
         roots := roots w @ map (below p) (mounts_node n)\<rparr>"
proof (induction n arbitrary: p w)
  case (Text s)
  then show ?case by (simp add: update_at_same)
next
  case (Element t a st cs)
  note sub = Element.IH
  let ?n = "Element t a st cs"
  show ?case
  proof (cases "t = ''pre'' \<and> wants_button ?n")
    case True
    let ?st = "set_property ''position'' ''relative'' st"
    let ?r = "\<lparr>container = p @ [length cs], button_value = textContent ?n\<rparr>"
    let ?w1 = "w\<lparr>document := update_at p (\<lambda>n. Element t a ?st (cs @ [wrapper])) (document w),
                  roots := roots w @ [?r]\<rparr>"
    from True have wb: "wants_button ?n"
      by (rule conjunct2)
    have self: "inject_into p w = ?w1"
      by (simp add: inject_into_element [OF Element.prems] wb)
    have paths: "map ((@) p) (querySelectorAll ''pre'' ?n)
                   = p # map ((@) p) (querySelectorAll_children ''pre'' (length ([]::node list)) cs)"
      using True by auto
    have sn: "scan_node ?n = Element t a ?st (map scan_node cs @ [wrapper])"
      using True by auto
    have mn: "map (below p) (mounts_node ?n)
                = ?r # map (below p) (mounts_children (length ([]::node list)) cs)"
      using True by (auto simp: below_def)
    have at1: "node_at (document ?w1) p = Some (Element t a ?st ([] @ cs @ [wrapper]))"
      using Element.prems by (simp add: node_at_update_at)
    have kids: "fold inject_into (map ((@) p) (querySelectorAll_children ''pre'' (length ([]::node list)) cs)) ?w1 =
                  ?w1\<lparr>document := update_at p (\<lambda>n. Element t a ?st ([] @ map scan_node cs @ [wrapper]))
                                     (document ?w1),
                       roots := roots ?w1 @ map (below p) (mounts_children (length ([]::node list)) cs)\<rparr>"
      by (rule fold_children [OF _ at1]) (rule sub)
    show ?thesis
      unfolding paths sn mn using kids
      by (simp add: self update_at_twice del: scan_node.simps mounts_node.simps)
  next
    case False
    have paths: "fold inject_into (map ((@) p) (querySelectorAll ''pre'' ?n)) w
                   = fold inject_into
                       (map ((@) p) (querySelectorAll_children ''pre'' (length ([]::node list)) cs)) w"
      using False by (auto simp: inject_into_element [OF Element.prems])
    have sn: "scan_node ?n = Element t a st ([] @ map scan_node cs @ [])"
      using False by auto
    have mn: "mounts_node ?n = mounts_children (length ([]::node list)) cs"
      using False by auto
    have at0: "node_at (document w) p = Some (Element t a st ([] @ cs @ []))"
      using Element.prems by simp
    show ?thesis
      unfolding paths sn mn
      by (rule fold_children [OF _ at0]) (rule sub)
  qed
qed

lemma scan_world:
  "injectCopyButtonsIntoCodeBlocks w =
     w\<lparr>document := scan_node (document w), roots := roots w @ mounts_node (document w)\<rparr>"
  using fold_inject_into [of w "[]" "document w"]
  by (simp add: injectCopyButtonsIntoCodeBlocks_def append_Nil_fun below_Nil)


text \<open>A text that \<open>trim\<close> empties is one that consists of white space only.\<close>

lemma all_dropWhile: "(\<forall>x \<in> set (dropWhile P xs). P x) = (\<forall>x \<in> set xs. P x)"
  by (induction xs) auto

lemma trim_blank: "(trim s = []) = list_all is_whitespace s"
  by (simp add: trim_def list_all_iff all_dropWhile)

lemma scan_node_wrapper [simp]: "scan_node wrapper = wrapper"
  by (simp add: wrapper_def)

lemma mounts_node_wrapper [simp]: "mounts_node wrapper = []"
  by (simp add: wrapper_def)

lemma matches_wrapper [simp]: "matches_within ''data-copy-btn'' wrapper"
  by (simp add: wrapper_def)

lemma textContent_scan_node [simp]: "textContent (scan_node n) = textContent n"
proof (induction n)
  case (Text s)
  show ?case by simp
next
  case (Element t a st cs)
  then have "map textContent (map scan_node cs) = map textContent cs"
    by simp
  then show ?case by (simp del: map_map)
qed

lemma matches_within_scan_node:
  "matches_within k n \<Longrightarrow> matches_within k (scan_node n)"
  by (induction n) (auto simp: list_ex_iff)

lemma querySelector_attr_scanned:
  "querySelector_attr k (Element t a st cs) \<Longrightarrow>
   querySelector_attr k (Element t a st (map scan_node cs))"
  by (auto simp: querySelector_attr_def list_ex_iff intro: matches_within_scan_node)

lemma scanned_wants_no_button:
  assumes "\<not> (t = ''pre'' \<and> wants_button (Element t a st cs))"
  shows "\<not> (t = ''pre'' \<and> wants_button (Element t a st (map scan_node cs)))"
proof -
  have "textContent (Element t a st (map scan_node cs)) = textContent (Element t a st cs)"
    using textContent_scan_node [of "Element t a st cs"]
    by (simp split: if_splits)
  then show ?thesis
    using assms querySelector_attr_scanned [of "''data-copy-btn''" t a st cs]
    unfolding wants_button_def by auto
qed

lemma enhanced_wants_no_button:
  "\<not> wants_button (Element t a st (cs @ [wrapper]))"
  by (simp add: wants_button_def querySelector_attr_def)

lemma scan_node_idem: "scan_node (scan_node n) = scan_node n"
proof (induction n)
  case (Text s)
  show ?case by simp
next
  case (Element t a st cs)
  then have kids: "map scan_node (map scan_node cs) = map scan_node cs"
    by simp
  show ?case
  proof (cases "t = ''pre'' \<and> wants_button (Element t a st cs)")
    case True
    then have "scan_node (Element t a st cs)
                 = Element t a (set_property ''position'' ''relative'' st) (map scan_node cs @ [wrapper])"
      by auto
    then show ?thesis
      using kids by (simp add: enhanced_wants_no_button del: map_map)
  next
    case False
    then have "scan_node (Element t a st cs) = Element t a st (map scan_node cs)"
      by auto
    then show ?thesis
      using kids scanned_wants_no_button [OF False] by (simp del: map_map)
  qed
qed

lemma mounts_children_none:
  "(\<And>c. c \<in> set cs \<Longrightarrow> mounts_node c = []) \<Longrightarrow> mounts_children i cs = []"
  by (induction cs arbitrary: i) auto

lemma mounts_node_scanned: "mounts_node (scan_node n) = []"
proof (induction n)
  case (Text s)
  show ?case by simp
next
  case (Element t a st cs)
  have kids: "mounts_children 0 (map scan_node cs) = []"
    by (rule mounts_children_none) (auto simp: Element.IH)
  have kids': "mounts_children 0 (map scan_node cs @ [wrapper]) = []"
    by (rule mounts_children_none) (auto simp: Element.IH)
  show ?case
  proof (cases "t = ''pre'' \<and> wants_button (Element t a st cs)")
    case True
    then have "scan_node (Element t a st cs)
                 = Element t a (set_property ''position'' ''relative'' st) (map scan_node cs @ [wrapper])"
      by auto
    then show ?thesis
      using kids' by (simp add: enhanced_wants_no_button)
  next
    case False
    then have "scan_node (Element t a st cs) = Element t a st (map scan_node cs)"
      by auto
    then show ?thesis
      using kids scanned_wants_no_button [OF False] by simp
  qed
qed

lemma scan_twice:
  "injectCopyButtonsIntoCodeBlocks (injectCopyButtonsIntoCodeBlocks w) = injectCopyButtonsIntoCodeBlocks w"
  by (simp add: scan_world scan_node_idem mounts_node_scanned)

lemma scan_funpow:
  "0 < k \<Longrightarrow> (injectCopyButtonsIntoCodeBlocks ^^ k) w = injectCopyButtonsIntoCodeBlocks w"
proof (induction k)
  case 0
  then show ?case by simp
next
  case (Suc k)
  then show ?case by (cases "k = 0") (simp_all add: scan_twice)
qed


text \<open>The roots that one scan creates, sorted by the element they are mounted into.\<close>

lemma container_nonempty:
  "r \<in> set (mounts_node n) \<Longrightarrow> container r \<noteq> []"
  "r \<in> set (mounts_children i cs) \<Longrightarrow> container r \<noteq> []"
  by (induction n and i cs arbitrary: r and r rule: mounts_node_mounts_children.induct)
     (auto simp: below_def split: if_splits)

lemma mounted_into_empty [simp]: "mounted_into p [] = []"
  by (simp add: mounted_into_def)

lemma mounted_into_append [simp]:
  "mounted_into p (rs @ rs') = mounted_into p rs @ mounted_into p rs'"
  by (simp add: mounted_into_def)

lemma mounted_into_below:
  assumes "\<And>r. r \<in> set rs \<Longrightarrow> container r \<noteq> []"
  shows "mounted_into (j # q) (map (below [i]) rs) =
           (if i = j then map (below [j]) (mounted_into q rs) else [])"
  using assms
  by (induction rs) (auto simp: mounted_into_def below_def)

lemma mounted_into_Nil_below:
  assumes "\<And>r. r \<in> set rs \<Longrightarrow> container r \<noteq> []"
  shows "mounted_into [] (map (below [i]) rs) = []"
  using assms
  by (induction rs) (auto simp: mounted_into_def below_def)

lemma mounted_into_Nil_children: "mounted_into [] (mounts_children i cs) = []"
  by (induction cs arbitrary: i) (simp_all add: mounted_into_Nil_below container_nonempty)

lemma mounted_into_children:
  "mounted_into (j # q) (mounts_children i cs) =
     (if i \<le> j \<and> j - i < length cs
      then map (below [j]) (mounted_into q (mounts_node (cs ! (j - i))))
      else [])"
proof (induction cs arbitrary: i)
  case Nil
  show ?case by simp
next
  case (Cons c cs)
  have head: "mounted_into (j # q) (map (below [i]) (mounts_node c)) =
                (if i = j then map (below [j]) (mounted_into q (mounts_node c)) else [])"
    by (rule mounted_into_below) (rule container_nonempty)
  show ?case
  proof (cases "i = j")
    case True
    then show ?thesis using head by (simp add: Cons.IH)
  next
    case False
    then show ?thesis
      by (cases "i < j") (auto simp: head Cons.IH Suc_diff_Suc)
  qed
qed

lemma mounted_into_mounts_node:
  "mounted_into p (mounts_node d) =
     (case node_at d p of
        None \<Rightarrow> []
      | Some n \<Rightarrow>
          if is_tag ''pre'' n \<and> wants_button n
          then [\<lparr>container = p @ [length (children n)], button_value = textContent n\<rparr>]
          else [])"
proof (induction d arbitrary: p)
  case (Text s)
  show ?case by (cases p) (simp_all add: mounted_into_def)
next
  case (Element t a st cs)
  show ?case
  proof (cases p)
    case Nil
    have self: "mounted_into []
                  [\<lparr>container = [length cs], button_value = textContent (Element t a st cs)\<rparr>]
                = [\<lparr>container = [length cs], button_value = textContent (Element t a st cs)\<rparr>]"
      by (simp add: mounted_into_def)
    show ?thesis
      using self by (auto simp: Nil mounted_into_Nil_children)
  next
    case (Cons j q)
    have self: "mounted_into (j # q)
                  [\<lparr>container = [length cs], button_value = textContent (Element t a st cs)\<rparr>] = []"
      by (simp add: mounted_into_def)
    show ?thesis
    proof (cases "j < length cs")
      case True
      then have "cs ! j \<in> set cs" by simp
      note ih = Element.IH [OF this, of q]
      show ?thesis
        using True self
        by (simp add: Cons mounted_into_children ih below_def split: option.split)
    next
      case False
      then show ?thesis
        using self by (simp add: Cons mounted_into_children)
    qed
  qed
qed



text \<open>The nodes of the document after a scan.\<close>

lemma node_at_scan_node:
  "node_at d p = Some n \<Longrightarrow> node_at (scan_node d) p = Some (scan_node n)"
proof (induction d arbitrary: p)
  case (Text s)
  then show ?case by (cases p) auto
next
  case (Element t a st cs)
  show ?case
  proof (cases p)
    case Nil
    with Element.prems show ?thesis by auto
  next
    case (Cons i q)
    with Element.prems have i: "i < length cs" and sub: "node_at (cs ! i) q = Some n"
      by (auto split: if_splits)
    from i have "cs ! i \<in> set cs" by simp
    from Element.IH [OF this sub] i show ?thesis
      by (simp add: Cons nth_append)
  qed
qed

lemma scan_node_blank:
  "list_all is_whitespace (textContent n) \<Longrightarrow> scan_node n = n"
proof (induction n)
  case (Text s)
  show ?case by simp
next
  case (Element t a st cs)
  from Element.prems have "\<And>c. c \<in> set cs \<Longrightarrow> list_all is_whitespace (textContent c)"
    by (auto simp: list_all_iff)
  then have "map scan_node cs = cs"
    by (simp add: Element.IH map_idI)
  moreover from Element.prems have "\<not> wants_button (Element t a st cs)"
    by (simp add: wants_button_def trim_blank)
  ultimately show ?case by simp
qed

lemma has_attribute_scan_node [simp]: "has_attribute k (scan_node n) = has_attribute k n"
  by (cases n) auto

lemma has_attribute_matches: "has_attribute k n \<Longrightarrow> matches_within k n"
  by (cases n) auto

lemma wrappers_in_wanting:
  "wants_button n \<Longrightarrow> wrappers_in n = []"
  by (cases n) (auto simp: wants_button_def wrappers_in_def querySelector_attr_def
                  list_ex_iff filter_empty_conv dest: has_attribute_matches)

lemma length_wrappers_in_scan_node:
  "length (wrappers_in (scan_node n)) =
     length (wrappers_in n) + (if is_tag ''pre'' n \<and> wants_button n then 1 else 0)"
proof (cases n)
  case (Text s)
  then show ?thesis by (simp add: wrappers_in_def)
next
  case (Element t a st cs)
  have "filter (has_attribute ''data-copy-btn'') (map scan_node cs)
          = map scan_node (filter (has_attribute ''data-copy-btn'') cs)"
    by (simp add: filter_map comp_def)
  then have "length (filter (has_attribute ''data-copy-btn'') (map scan_node cs))
               = length (filter (has_attribute ''data-copy-btn'') cs)"
    by simp
  then show ?thesis
    by (auto simp: Element wrappers_in_def wrapper_def)
qed

lemma wrapper_count_scan_node:
  assumes "node_at d p = Some n" and "length (wrappers_in n) \<le> 1"
  shows "wrapper_count (scan_node d) p \<le> 1"
proof (cases "wants_button n")
  case True
  then show ?thesis
    using assms(1)
    by (simp add: wrapper_count_def node_at_scan_node length_wrappers_in_scan_node wrappers_in_wanting)
next
  case False
  then show ?thesis
    using assms
    by (simp add: wrapper_count_def node_at_scan_node length_wrappers_in_scan_node)
qed

text \<open>Enhanced documents: the scan leaves them alone, and produces one.\<close>

lemma inject_into_settled:
  "node_at (document w) p = Some n \<Longrightarrow> \<not> wants_button n \<Longrightarrow> inject_into p w = w"
  by (auto simp: inject_into_def wants_button_def)

lemma fold_unchanged: "(\<And>x. x \<in> set xs \<Longrightarrow> f x w = w) \<Longrightarrow> fold f xs w = w"
  by (induction xs) simp_all

lemma scan_settled:
  assumes "settled (document w)"
  shows "injectCopyButtonsIntoCodeBlocks w = w"
  unfolding injectCopyButtonsIntoCodeBlocks_def
proof (rule fold_unchanged)
  fix p
  assume "p \<in> set (querySelectorAll ''pre'' (document w))"
  with assms have c: "case node_at (document w) p of None \<Rightarrow> True | Some n \<Rightarrow> \<not> wants_button n"
    by (simp add: settled_def list_all_iff)
  show "inject_into p w = w"
  proof (cases "node_at (document w) p")
    case None
    then show ?thesis by (simp add: inject_into_def)
  next
    case (Some n)
    with c have "\<not> wants_button n" by simp
    with Some show ?thesis by (rule inject_into_settled)
  qed
qed

lemma querySelectorAll_children_append:
  "querySelectorAll_children tg i (xs @ ys) =
     querySelectorAll_children tg i xs @ querySelectorAll_children tg (i + length xs) ys"
  by (induction xs arbitrary: i) simp_all

lemma querySelectorAll_children_map:
  "(\<And>c. c \<in> set cs \<Longrightarrow> querySelectorAll tg (f c) = querySelectorAll tg c) \<Longrightarrow>
   querySelectorAll_children tg i (map f cs) = querySelectorAll_children tg i cs"
  by (induction cs arbitrary: i) simp_all

lemma querySelectorAll_scan_node:
  "querySelectorAll ''pre'' (scan_node d) = querySelectorAll ''pre'' d"
proof (induction d)
  case (Text s)
  show ?case by simp
next
  case (Element t a st cs)
  have "querySelectorAll_children ''pre'' 0 (map scan_node cs) = querySelectorAll_children ''pre'' 0 cs"
    by (rule querySelectorAll_children_map) (rule Element.IH)
  then show ?case
    by (simp add: querySelectorAll_children_append wrapper_def)
qed

lemma querySelectorAll_sound:
  "p \<in> set (querySelectorAll tg d) \<Longrightarrow> \<exists>n. node_at d p = Some n \<and> is_tag tg n"
  "p \<in> set (querySelectorAll_children tg i cs) \<Longrightarrow>
     \<exists>j q n. p = j # q \<and> i \<le> j \<and> j - i < length cs \<and> node_at (cs ! (j - i)) q = Some n \<and> is_tag tg n"
proof (induction tg d and tg i cs arbitrary: p and p rule: querySelectorAll_querySelectorAll_children.induct)
  case (1 tg s)
  then show ?case by simp
next
  case (2 tg t a st cs)
  from "2.prems" consider (self) "p = []" "t = tg"
    | (kids) "p \<in> set (querySelectorAll_children tg 0 cs)"
    by (auto split: if_splits)
  then show ?case
  proof cases
    case self
    then show ?thesis by simp
  next
    case kids
    from "2.IH" [OF this] show ?thesis by auto
  qed
next
  case (3 tg i)
  then show ?case by simp
next
  case (4 tg i c cs)
  from "4.prems" consider (head) q where "p = i # q" "q \<in> set (querySelectorAll tg c)"
    | (tail) "p \<in> set (querySelectorAll_children tg (Suc i) cs)"
    by auto
  then show ?case
  proof cases
    case head
    from "4.IH"(1) [OF head(2)] head(1) show ?thesis by auto
  next
    case tail
    from "4.IH"(2) [OF tail] obtain j q n where
      "p = j # q" "Suc i \<le> j" "j - Suc i < length cs" "node_at (cs ! (j - Suc i)) q = Some n" "is_tag tg n"
      by blast
    then show ?thesis
      by (auto simp: Suc_diff_Suc intro!: exI [of _ j])
  qed
qed

lemma scanned_pre_wants_no_button:
  "is_tag ''pre'' n \<Longrightarrow> \<not> wants_button (scan_node n)"
proof (cases n)
  case (Text s)
  then show "is_tag ''pre'' n \<Longrightarrow> \<not> wants_button (scan_node n)" by simp
next
  case (Element t a st cs)
  assume "is_tag ''pre'' n"
  with Element have t: "t = ''pre''" by simp
  show "\<not> wants_button (scan_node n)"
  proof (cases "wants_button (Element t a st cs)")
    case True
    with t have "scan_node n
                   = Element t a (set_property ''position'' ''relative'' st) (map scan_node cs @ [wrapper])"
      by (simp add: Element)
    then show ?thesis by (simp add: enhanced_wants_no_button)
  next
    case False
    then have f: "\<not> (t = ''pre'' \<and> wants_button (Element t a st cs))" by simp
    from False have "scan_node n = Element t a st (map scan_node cs)"
      by (simp add: Element)
    with scanned_wants_no_button [OF f] t show ?thesis by simp
  qed
qed

lemma settled_scan_node: "settled (scan_node d)"
proof -
  have "\<not> wants_button n'"
    if "p \<in> set (querySelectorAll ''pre'' d)" and "node_at (scan_node d) p = Some n'" for p n'
  proof -
    from querySelectorAll_sound(1) [OF that(1)] obtain n where
      n: "node_at d p = Some n" "is_tag ''pre'' n" by blast
    from node_at_scan_node [OF n(1)] that(2) have "n' = scan_node n" by simp
    with scanned_pre_wants_no_button [OF n(2)] show ?thesis by simp
  qed
  then show ?thesis
    by (auto simp: settled_def list_all_iff querySelectorAll_scan_node split: option.split)
qed

text \<open>
  C4. A second run of the scan changes nothing: no root is created and the document stays
  as it is. More generally a scan yields an enhanced document, and a scan of an enhanced
  document changes nothing. Starting with no roots, after any number of scans at most
  one control is mounted into any element, and exactly one into every \<open>pre\<close> element
  that had no marked descendant and a non-blank text. An element with at most one
  wrapper among its children has at most one after any number of scans.
\<close>

theorem one_button_per_block:
  "injectCopyButtonsIntoCodeBlocks (injectCopyButtonsIntoCodeBlocks w)
     = injectCopyButtonsIntoCodeBlocks w
   \<and> settled (document (injectCopyButtonsIntoCodeBlocks w))
   \<and> (settled (document w) \<longrightarrow> injectCopyButtonsIntoCodeBlocks w = w)
   \<and> (roots w = [] \<longrightarrow>
        length (mounted_into p (roots ((injectCopyButtonsIntoCodeBlocks ^^ k) w))) \<le> 1)
   \<and> (roots w = [] \<and> 0 < k \<and> node_at (document w) p = Some n
        \<and> is_tag ''pre'' n \<and> wants_button n \<longrightarrow>
        length (mounted_into p (roots ((injectCopyButtonsIntoCodeBlocks ^^ k) w))) = 1)
   \<and> (node_at (document w) p = Some n \<and> length (wrappers_in n) \<le> 1 \<longrightarrow>
        wrapper_count (document ((injectCopyButtonsIntoCodeBlocks ^^ k) w)) p \<le> 1)"
proof (cases "k = 0")
  case True
  have "settled (document (injectCopyButtonsIntoCodeBlocks w))"
    by (simp add: scan_world settled_scan_node)
  with True show ?thesis
    by (simp add: scan_twice wrapper_count_def scan_settled)
next
  case False
  then have k: "(injectCopyButtonsIntoCodeBlocks ^^ k) w = injectCopyButtonsIntoCodeBlocks w"
    by (simp add: scan_funpow)
  have s: "settled (document (injectCopyButtonsIntoCodeBlocks w))"
    by (simp add: scan_world settled_scan_node)
  have a: "roots w = [] \<Longrightarrow>
             length (mounted_into p (roots (injectCopyButtonsIntoCodeBlocks w))) \<le> 1"
    by (simp add: scan_world mounted_into_mounts_node split: option.split)
  have b: "roots w = [] \<Longrightarrow> node_at (document w) p = Some n \<Longrightarrow> is_tag ''pre'' n \<Longrightarrow>
             wants_button n \<Longrightarrow>
             length (mounted_into p (roots (injectCopyButtonsIntoCodeBlocks w))) = 1"
    by (simp add: scan_world mounted_into_mounts_node)
  have c: "node_at (document w) p = Some n \<Longrightarrow> length (wrappers_in n) \<le> 1 \<Longrightarrow>
             wrapper_count (document (injectCopyButtonsIntoCodeBlocks w)) p \<le> 1"
    using wrapper_count_scan_node [of "document w" p n] by (simp add: scan_world)
  show ?thesis
    unfolding k using s a b c by (simp add: scan_twice scan_settled)
qed

theorem one_button_per_block_witness:
  "injectCopyButtonsIntoCodeBlocks (injectCopyButtonsIntoCodeBlocks sample_world)
     = injectCopyButtonsIntoCodeBlocks sample_world
   \<and> roots sample_world = []
   \<and> node_at (document sample_world) [0, 1] = Some sample_block
   \<and> is_tag ''pre'' sample_block
   \<and> wants_button sample_block
   \<and> length (wrappers_in sample_block) \<le> 1
   \<and> length (mounted_into [0, 1] (roots ((injectCopyButtonsIntoCodeBlocks ^^ 2) sample_world))) = 1
   \<and> wrapper_count (document ((injectCopyButtonsIntoCodeBlocks ^^ 2) sample_world)) [0, 1] \<le> 1
   \<and> settled (document rendered_world)
   \<and> injectCopyButtonsIntoCodeBlocks rendered_world = rendered_world"
proof -
  have h1: "roots sample_world = []"
    by (simp add: sample_world_def)
  have h2: "node_at (document sample_world) [0, 1] = Some sample_block"
    by (simp add: sample_world_def sample_page_def)
  have h3: "is_tag ''pre'' sample_block"
    by (simp add: sample_block_def)
  have h4: "wants_button sample_block"
    by code_simp
  have h5: "length (wrappers_in sample_block) \<le> 1"
    by (simp add: wrappers_in_def sample_block_def)
  have h6: "settled (document rendered_world)"
    by code_simp
  show ?thesis
    using one_button_per_block [of sample_world "[0, 1]" 2 sample_block]
      one_button_per_block [of rendered_world "[0, 1]" 2 sample_block] h1 h2 h3 h4 h5 h6
    by simp
qed

text \<open>
  C8. An element whose text content is empty or consists of white space only is left as
  it is by any number of scans, and no control is mounted into it.
\<close>

theorem blank_block_skipped:
  assumes "node_at (document w) p = Some n"
      and "list_all is_whitespace (textContent n)"
  shows "node_at (document ((injectCopyButtonsIntoCodeBlocks ^^ k) w)) p = Some n
       \<and> mounted_into p (roots ((injectCopyButtonsIntoCodeBlocks ^^ k) w)) = mounted_into p (roots w)"
proof (cases "k = 0")
  case True
  with assms show ?thesis by simp
next
  case False
  then have k: "(injectCopyButtonsIntoCodeBlocks ^^ k) w = injectCopyButtonsIntoCodeBlocks w"
    by (simp add: scan_funpow)
  from assms(2) have "\<not> wants_button n"
    by (simp add: wants_button_def trim_blank)
  then show ?thesis
    unfolding k using assms
    by (simp add: scan_world node_at_scan_node scan_node_blank mounted_into_mounts_node)
qed

theorem blank_block_skipped_witness:
  "node_at (document sample_world) [0, 2] = Some blank_block
   \<and> list_all is_whitespace (textContent blank_block)
   \<and> node_at (document ((injectCopyButtonsIntoCodeBlocks ^^ 2) sample_world)) [0, 2] = Some blank_block
   \<and> mounted_into [0, 2] (roots ((injectCopyButtonsIntoCodeBlocks ^^ 2) sample_world)) = []"
proof -
  have h1: "node_at (document sample_world) [0, 2] = Some blank_block"
    by (simp add: sample_world_def sample_page_def)
  have h2: "list_all is_whitespace (textContent blank_block)"
    by code_simp
  have h3: "mounted_into [0, 2] (roots sample_world) = []"
    by (simp add: sample_world_def)
  show ?thesis
    using blank_block_skipped [OF h1 h2, of 2] h1 h2 h3
    by simp
qed

text \<open>
  C9. When the document has no element with the id \<open>post-content\<close>, the effect changes
  nothing: no scan, no observation, no cleanup function, and unmounting changes nothing
  either.
\<close>

theorem absent_container_no_op:
  assumes "getElementById ''post-content'' (document w) = None"
  shows "CopyButtonsInjector w = (w, None)
       \<and> run_cleanup (snd (CopyButtonsInjector w)) w = w"
  using assms by (simp add: CopyButtonsInjector_def)

theorem absent_container_no_op_witness:
  "getElementById ''post-content'' (document plain_world) = None
   \<and> CopyButtonsInjector plain_world = (plain_world, None)
   \<and> run_cleanup (snd (CopyButtonsInjector plain_world)) plain_world = plain_world"
proof -
  have h: "getElementById ''post-content'' (document plain_world) = None"
    by (simp add: plain_world_def plain_page_def)
  show ?thesis
    using absent_container_no_op [OF h] h by simp
qed

text \<open>The container of the sample page.\<close>

lemma sample_target: "getElementById ''post-content'' (document sample_world) = Some [0]"
  by (simp add: sample_world_def sample_page_def)

text \<open>
  C5 (amended). When the container exists, the effect starts observing it and returns a
  cleanup function; deactivation, whenever it happens, disconnects the observer and
  changes nothing else: the roots and the document stay as they are.
\<close>

theorem deactivation_disconnects_only:
  assumes "getElementById ''post-content'' (document w0) = Some t"
  shows "snd (CopyButtonsInjector w0) = Some Disconnect
       \<and> observing (fst (CopyButtonsInjector w0)) = Some t
       \<and> run_cleanup (snd (CopyButtonsInjector w0)) w = w\<lparr>observing := None\<rparr>"
  using assms by (simp add: CopyButtonsInjector_def Let_def)

theorem deactivation_disconnects_only_witness:
  "getElementById ''post-content'' (document sample_world) = Some [0]
   \<and> snd (CopyButtonsInjector sample_world) = Some Disconnect
   \<and> observing mounted_world = Some [0]
   \<and> unmounted_world = mounted_world\<lparr>observing := None\<rparr>"
  using deactivation_disconnects_only [OF sample_target, of mounted_world] sample_target
  by (simp add: mounted_world_def unmounted_world_def)

text \<open>
  C5 as stated fails: on the sample page the effect mounts one control, and after
  deactivation the root and its wrapper are still there.
\<close>

theorem controls_survive_deactivation_counterexample:
  "snd (CopyButtonsInjector sample_world) = Some Disconnect
   \<and> roots mounted_world = [\<lparr>container = [0, 1, 1], button_value = utf16 ''npm i''\<rparr>]
   \<and> observing unmounted_world = None
   \<and> roots unmounted_world = [\<lparr>container = [0, 1, 1], button_value = utf16 ''npm i''\<rparr>]
   \<and> roots unmounted_world \<noteq> []
   \<and> node_at (document unmounted_world) [0, 1, 1] = Some wrapper"
  by code_simp

text \<open>A disconnected observer never calls back, so no step creates a root.\<close>

lemma step_disconnected:
  "step w w' \<Longrightarrow> observing w = None \<Longrightarrow> roots w' = roots w \<and> observing w' = None"
  by (induction rule: step.induct) auto

lemma steps_disconnected:
  "rtranclp step w w' \<Longrightarrow> observing w = None \<Longrightarrow> roots w' = roots w \<and> observing w' = None"
  by (induction rule: rtranclp_induct) (auto dest: step_disconnected)

text \<open>
  C6. Once the enhancer has been deactivated, whatever happens to the document
  afterwards, the roots stay the same and the observer stays disconnected: the scan is
  not run again.
\<close>

theorem no_scan_after_deactivation:
  assumes "getElementById ''post-content'' (document w0) = Some t"
      and "rtranclp step (fst (CopyButtonsInjector w0)) w1"
      and "rtranclp step (run_cleanup (snd (CopyButtonsInjector w0)) w1) w2"
  shows "roots w2 = roots w1 \<and> observing w2 = None"
proof -
  have "run_cleanup (snd (CopyButtonsInjector w0)) w1 = w1\<lparr>observing := None\<rparr>"
    using assms(1) by (simp add: CopyButtonsInjector_def Let_def)
  with assms(3) steps_disconnected [of "w1\<lparr>observing := None\<rparr>" w2]
  show ?thesis by simp
qed

theorem no_scan_after_deactivation_witness:
  "getElementById ''post-content'' (document sample_world) = Some [0]
   \<and> rtranclp step mounted_world mounted_world
   \<and> rtranclp step unmounted_world (unmounted_world\<lparr>document := grown_page\<rparr>)
   \<and> node_at grown_page [0, 3] = Some (Element ''pre'' [] [] [Text (utf16 ''npm run dev'')])
   \<and> roots (unmounted_world\<lparr>document := grown_page\<rparr>) = roots mounted_world
   \<and> observing (unmounted_world\<lparr>document := grown_page\<rparr>) = None"
proof -
  have h1: "rtranclp step (fst (CopyButtonsInjector sample_world)) mounted_world"
    by (simp add: mounted_world_def)
  have "step unmounted_world (unmounted_world\<lparr>document := grown_page\<rparr>)"
    by (rule step.mutation) simp_all
  then have h2: "rtranclp step (run_cleanup (snd (CopyButtonsInjector sample_world)) mounted_world)
                   (unmounted_world\<lparr>document := grown_page\<rparr>)"
    by (simp add: unmounted_world_def)
  have h3: "node_at grown_page [0, 3] = Some (Element ''pre'' [] [] [Text (utf16 ''npm run dev'')])"
    by code_simp
  show ?thesis
    using no_scan_after_deactivation [OF sample_target h1 h2] sample_target h1 h2 h3
    by (simp add: mounted_world_def unmounted_world_def)
qed

end
